theory Spec2Isabelle
  imports Main
begin

section \<open>Data model of \<open>main.go\<close>\<close>

text \<open>
  Go strings are byte sequences; \<open>len\<close> and slicing count bytes, as \<open>string\<close>
  (a list of 8-bit \<open>char\<close>) does.
\<close>

text \<open>\<open>type lockableValue struct { Value string; IsLocked bool }\<close>\<close>

record lockableValue =
  Value :: string
  IsLocked :: bool

text \<open>
  \<open>type session struct { ID string; Key string; Timer *time.Timer }\<close>.
  The \<open>Timer\<close> pointer is \<open>nil\<close> (\<open>None\<close>) or a handle into the store of timers.
\<close>

record session =
  ID :: string
  Key :: string
  Timer :: "nat option"

text \<open>
  A \<open>time.Timer\<close> made by \<open>time.AfterFunc\<close> in \<open>startTimer\<close>. Its callback closes
  over the session pointer \<open>s\<close> and reads \<open>s.Key\<close> and \<open>s.ID\<close>; no statement of the
  program assigns to these two fields after the session is built, so the timer records
  their values. The life of a timer: \<open>Pending\<close> until it is stopped or its duration is
  over; \<open>Fired\<close> when the runtime has started the callback, which then waits for
  \<open>lock.Lock()\<close>; \<open>Done\<close> when the callback has run. \<open>Stop\<close> acts on a pending
  timer only.
\<close>

datatype timerStatus = Pending | Fired | Stopped | Done

record timer =
  tDuration :: int
  tKey :: string
  tID :: string
  tStatus :: timerStatus

text \<open>
  \<open>sync.RWMutex\<close>: held by one writer or by a number of readers. A handler runs from
  \<open>Lock\<close> to \<open>Unlock\<close> as one transition, so the mutex is held between two transitions
  only where a handler leaves without unlocking; it is never released after that, and a
  call of \<open>Lock\<close> that finds it held waits for ever. \<open>waiting\<close> records that some call
  of \<open>Lock\<close> waits. \<open>Lock\<close> gets the mutex when nobody holds it. \<open>RLock\<close> gets it
  unless a writer holds it or a writer waits for the readers that hold it: in Go a
  blocked \<open>Lock\<close> keeps new readers out.
\<close>

record rwmutex =
  writer :: bool
  readers :: nat
  waiting :: bool

definition canLock :: "rwmutex \<Rightarrow> bool" where
  "canLock m = (\<not> writer m \<and> readers m = 0)"

definition canRLock :: "rwmutex \<Rightarrow> bool" where
  "canRLock m = (\<not> writer m \<and> \<not> (waiting m \<and> 0 < readers m))"

text \<open>
  The variables of \<open>main\<close> that the handlers share: \<open>kvs\<close>, \<open>sessions\<close>, \<open>kvLock\<close>,
  and the timers made so far. The maps hold pointers; every \<open>&lockableValue{...}\<close> and
  \<open>&session{...}\<close> is stored under one key of one map and nowhere else (the timer
  callbacks apart, which only read \<open>Key\<close> and \<open>ID\<close>), so a map of values updated in
  place models them.
\<close>

record state =
  kvs :: "string \<rightharpoonup> lockableValue"
  sessions :: "string \<rightharpoonup> session"
  timers :: "timer list"
  kvLock :: rwmutex

text \<open>The state in which one more call of \<open>kvLock.Lock()\<close> waits.\<close>

definition waits :: "state \<Rightarrow> state" where
  "waits st = st\<lparr>kvLock := (kvLock st)\<lparr>waiting := True\<rparr>\<rparr>"

definition initial :: state where
  "initial = \<lparr>kvs = Map.empty, sessions = Map.empty, timers = [],
              kvLock = \<lparr>writer = False, readers = 0, waiting = False\<rparr>\<rparr>"

section \<open>\<open>strconv.ParseInt(s, 10, 64)\<close>\<close>

text \<open>
  The handlers read the duration with Go's \<open>strconv.ParseInt(duration, 10, 64)\<close>: an
  optional sign, then one or more decimal digits, and the value must fit in 64 signed
  bits. \<open>parseUint\<close> is the digit loop of \<open>strconv.ParseUint\<close> for base 10 and
  64 bits, with its two overflow checks.
\<close>

datatype numError = ErrSyntax | ErrRange

definition isDigit :: "char \<Rightarrow> bool" where
  "isDigit c = (48 \<le> (of_char c :: nat) \<and> (of_char c :: nat) \<le> 57)"

definition digitVal :: "char \<Rightarrow> nat" where
  "digitVal c = of_char c - 48"

fun parseUintLoop :: "string \<Rightarrow> nat \<Rightarrow> numError + nat" where
  "parseUintLoop [] n = Inr n"
| "parseUintLoop (c # cs) n =
     (if \<not> isDigit c then Inl ErrSyntax
      else if n \<ge> (2 ^ 64 - 1) div 10 + 1 then Inl ErrRange
      else if n * 10 + digitVal c > 2 ^ 64 - 1 then Inl ErrRange
      else parseUintLoop cs (n * 10 + digitVal c))"

definition parseUint :: "string \<Rightarrow> numError + nat" where
  "parseUint s = (if s = [] then Inl ErrSyntax else parseUintLoop s 0)"

definition signedRange :: "bool \<Rightarrow> numError + nat \<Rightarrow> numError + int" where
  "signedRange neg r =
     (case r of
        Inl ErrSyntax \<Rightarrow> Inl ErrSyntax
      | Inl ErrRange \<Rightarrow> Inl ErrRange
      | Inr un \<Rightarrow>
          if \<not> neg \<and> un \<ge> 2 ^ 63 then Inl ErrRange
          else if neg \<and> un > 2 ^ 63 then Inl ErrRange
          else Inr (if neg then - int un else int un))"

definition ParseInt :: "string \<Rightarrow> numError + int" where
  "ParseInt s =
     (case s of
        [] \<Rightarrow> Inl ErrSyntax
      | c # cs \<Rightarrow>
          if c = CHR ''+'' then signedRange False (parseUint cs)
          else if c = CHR ''-'' then signedRange True (parseUint cs)
          else signedRange False (parseUint s))"

section \<open>Results of a handler\<close>

text \<open>
  Modelled from the spec: the package \<open>types\<close> of the repository
  (\<open>StatusReturn\<close>, \<open>AcquireReturn\<close>, \<open>ReleaseReturn\<close>, \<open>SetReturn\<close>, \<open>GetReturn\<close>)
  is not among the sources; its structs have the fields that \<open>main.go\<close> assigns and
  that the table of result fields in the spec lists. \<open>NoBody\<close> is the reply of a
  handler that writes nothing (renew, destroy), \<open>KeysReturn\<close> the encoded list of keys.
\<close>

datatype response =
    StatusReturn bool
  | AcquireReturn string bool
  | ReleaseReturn bool
  | SetReturn bool
  | GetReturn bool string string
  | KeysReturn "string list"
  | NoBody

text \<open>
  How a handler ends other than by a reply: \<open>http.Error(w, err.Error(), 500)\<close> after a
  failed \<open>ParseInt\<close>; a run-time panic (nil pointer dereference, slice bounds out of
  range); or never, waiting for \<open>kvLock\<close>.
\<close>

datatype failure =
    BadDuration numError
  | NilDeref
  | SliceBounds
  | Blocks

type_synonym outcome = "(failure + response) \<times> state"

section \<open>The expiry timers: \<open>startTimer\<close>\<close>

text \<open>
  \<open>Timer.Stop()\<close>: a pending timer will not fire any more; on a timer that has fired or
  was stopped it does nothing (the callback that has started still runs).
\<close>

definition stopTimer :: "nat \<Rightarrow> timer list \<Rightarrow> timer list" where
  "stopTimer h ts =
     (if h < length ts \<and> tStatus (ts ! h) = Pending
      then ts[h := (ts ! h)\<lparr>tStatus := Stopped\<rparr>] else ts)"

text \<open>
  \<open>startTimer(duration, s, lock, kvs, sessions)\<close>, lines 28 to 39. \<open>s\<close> is the pointer
  stored in \<open>sessions\<close> under \<open>slot\<close>; the assignment to \<open>s.Timer\<close> is written back
  there. The handle of the new timer is its index in \<open>timers\<close>.
\<close>

definition startTimer :: "int \<Rightarrow> string \<Rightarrow> session \<Rightarrow> state \<Rightarrow> state" where
  "startTimer duration slot s st =
     (let ts = (case Timer s of None \<Rightarrow> timers st | Some h \<Rightarrow> stopTimer h (timers st))
      in st\<lparr>timers := ts @ [\<lparr>tDuration = duration, tKey = Key s, tID = ID s, tStatus = Pending\<rparr>],
            sessions := (sessions st)(slot \<mapsto> s\<lparr>Timer := Some (length ts)\<rparr>)\<rparr>)"

text \<open>
  The function given to \<open>time.AfterFunc\<close>, lines 33 to 37: \<open>lock.Lock()\<close>,
  \<open>delete(kvs, s.Key)\<close>, \<open>delete(sessions, s.ID)\<close>, and the deferred \<open>lock.Unlock()\<close>.
\<close>

definition expiryCallback :: "timer \<Rightarrow> state \<Rightarrow> outcome" where
  "expiryCallback t st =
     (if \<not> canLock (kvLock st) then (Inl Blocks, waits st)
      else (Inr NoBody, st\<lparr>kvs := (kvs st)(tKey t := None),
                            sessions := (sessions st)(tID t := None)\<rparr>))"

text \<open>
  The two steps of the runtime on timer \<open>h\<close>: its duration is over and the callback is
  started (\<open>fire\<close>); the started callback gets the lock and runs (\<open>expire\<close>). Real time
  is not part of the model: a pending timer may fire at any moment. \<open>Disabled\<close> marks a
  step that cannot happen in the state.
\<close>

datatype disabled = Disabled

definition fire :: "nat \<Rightarrow> state \<Rightarrow> disabled + state" where
  "fire h st =
     (if h < length (timers st) \<and> tStatus (timers st ! h) = Pending
      then Inr (st\<lparr>timers := (timers st)[h := (timers st ! h)\<lparr>tStatus := Fired\<rparr>]\<rparr>)
      else Inl Disabled)"

definition expire :: "nat \<Rightarrow> state \<Rightarrow> disabled + outcome" where
  "expire h st =
     (if h < length (timers st) \<and> tStatus (timers st ! h) = Fired
      then Inr (case expiryCallback (timers st ! h) st of
                  (Inl e, st') \<Rightarrow> (Inl e, st')
                | (Inr r, st') \<Rightarrow>
                    (Inr r, st'\<lparr>timers := (timers st')[h := (timers st' ! h)\<lparr>tStatus := Done\<rparr>]\<rparr>))
      else Inl Disabled)"

section \<open>The handlers of \<open>main\<close>\<close>

text \<open>\<open>/status\<close>, lines 53 to 56.\<close>

definition status :: "state \<Rightarrow> outcome" where
  "status st = (Inr (StatusReturn True), st)"

text \<open>
  \<open>/session/renew/{sessionId}/{duration}\<close>, lines 58 to 75. The unlock is deferred, so
  the lock is free again after the error return.
\<close>

definition renew :: "string \<Rightarrow> string \<Rightarrow> state \<Rightarrow> outcome" where
  "renew sessionId duration st =
     (if \<not> canLock (kvLock st) then (Inl Blocks, waits st)
      else case ParseInt duration of
             Inl err \<Rightarrow> (Inl (BadDuration err), st)
           | Inr interval \<Rightarrow>
               (case sessions st sessionId of
                  Some s \<Rightarrow> (Inr NoBody, startTimer interval sessionId s st)
                | None \<Rightarrow> (Inr NoBody, st)))"

text \<open>
  \<open>/session/destroy/{sessionId}\<close>, lines 77 to 87. \<open>session.Timer.Stop()\<close> on a nil
  timer panics; the deferred unlock runs all the same.
\<close>

definition destroy :: "string \<Rightarrow> state \<Rightarrow> outcome" where
  "destroy sessionId st =
     (if \<not> canLock (kvLock st) then (Inl Blocks, waits st)
      else case sessions st sessionId of
             Some s \<Rightarrow>
               (case Timer s of
                  None \<Rightarrow> (Inl NilDeref, st)
                | Some h \<Rightarrow>
                    (Inr NoBody, st\<lparr>timers := stopTimer h (timers st),
                                     kvs := (kvs st)(Key s := None),
                                     sessions := (sessions st)(sessionId := None)\<rparr>))
           | None \<Rightarrow> (Inr NoBody, st))"

text \<open>
  \<open>/kv/keys\<close>, lines 89 to 106. \<open>key[:len(prefix)]\<close> panics when \<open>len(prefix)\<close> is
  greater than \<open>len(key)\<close>; \<open>&&\<close> evaluates it only when \<open>prefix != ""\<close>.
\<close>

definition sliceTo :: "string \<Rightarrow> nat \<Rightarrow> failure + string" where
  "sliceTo key n = (if n > length key then Inl SliceBounds else Inr (take n key))"

text \<open>
  The two conditions of the loop body, lines 95 and 97: whether \<open>key\<close> is appended
  to \<open>ret\<close>, or the slice expression panics.
\<close>

definition appends :: "string \<Rightarrow> string \<Rightarrow> failure + bool" where
  "appends prefix key =
     (if prefix \<noteq> [] then
        (case sliceTo key (length prefix) of
           Inl e \<Rightarrow> Inl e
         | Inr p \<Rightarrow> if p = prefix then Inr True else if prefix = [] then Inr True else Inr False)
      else if prefix = [] then Inr True
      else Inr False)"

fun keysLoop :: "string \<Rightarrow> string list \<Rightarrow> string list \<Rightarrow> failure + string list" where
  "keysLoop prefix [] ret = Inr ret"
| "keysLoop prefix (key # rest) ret =
     (case appends prefix key of
        Inl e \<Rightarrow> Inl e
      | Inr True \<Rightarrow> keysLoop prefix rest (ret @ [key])
      | Inr False \<Rightarrow> keysLoop prefix rest ret)"

text \<open>
  \<open>for key := range kvs\<close> visits every key once, in an order Go does not fix:
  \<open>order\<close> is that order, \<open>rangeOf\<close> says that it is one of \<open>kvs\<close>. The read lock
  is released by a plain \<open>RUnlock\<close> after the loop, so a panic in the loop leaves it held.
\<close>

definition rangeOf :: "string list \<Rightarrow> (string \<rightharpoonup> lockableValue) \<Rightarrow> bool" where
  "rangeOf order m = (distinct order \<and> set order = dom m)"

definition keys :: "string \<Rightarrow> string list \<Rightarrow> state \<Rightarrow> outcome" where
  "keys prefix order st =
     (if \<not> canRLock (kvLock st) then (Inl Blocks, st)
      else case keysLoop prefix order [] of
             Inl e \<Rightarrow> (Inl e, st\<lparr>kvLock := (kvLock st)\<lparr>readers := readers (kvLock st) + 1\<rparr>\<rparr>)
           | Inr ret \<Rightarrow> (Inr (KeysReturn ret), st))"

text \<open>
  \<open>/kv/acquire/{key}/{duration}\<close>, lines 108 to 152. \<open>newId\<close> is the result of
  \<open>cuid.New()\<close>. The error return of line 119 comes after \<open>kvLock.Lock()\<close> and before
  any unlock: the write lock stays held.
\<close>

definition acquire :: "string \<Rightarrow> string \<Rightarrow> string \<Rightarrow> string \<Rightarrow> state \<Rightarrow> outcome" where
  "acquire key duration val newId st =
     (if \<not> canLock (kvLock st) then (Inl Blocks, waits st)
      else case ParseInt duration of
             Inl err \<Rightarrow> (Inl (BadDuration err), st\<lparr>kvLock := (kvLock st)\<lparr>writer := True\<rparr>\<rparr>)
           | Inr interval \<Rightarrow>
               (let st1 = (case kvs st key of
                             None \<Rightarrow> st\<lparr>kvs := (kvs st)(key \<mapsto> \<lparr>Value = val, IsLocked = False\<rparr>)\<rparr>
                           | Some _ \<Rightarrow> st)
                in case kvs st1 key of
                     None \<Rightarrow> (Inl NilDeref, st1\<lparr>kvLock := (kvLock st1)\<lparr>writer := True\<rparr>\<rparr>)
                   | Some v \<Rightarrow>
                       if \<not> IsLocked v then
                         (let s = \<lparr>ID = newId, Key = key, Timer = None\<rparr>;
                              st2 = st1\<lparr>kvs := (kvs st1)(key \<mapsto> v\<lparr>IsLocked := True\<rparr>),
                                        sessions := (sessions st1)(newId \<mapsto> s)\<rparr>
                          in (Inr (AcquireReturn newId True), startTimer interval newId s st2))
                       else (Inr (AcquireReturn newId False), st1)))"

text \<open>\<open>/kv/release/{key}/{sessionId}\<close>, lines 154 to 177.\<close>

definition release :: "string \<Rightarrow> string \<Rightarrow> state \<Rightarrow> outcome" where
  "release key sessionId st =
     (if \<not> canLock (kvLock st) then (Inl Blocks, waits st)
      else case kvs st key of
             Some v \<Rightarrow>
               (case sessions st sessionId of
                  Some s \<Rightarrow>
                    if Key s = key
                    then (Inr (ReleaseReturn True), st\<lparr>kvs := (kvs st)(key \<mapsto> v\<lparr>IsLocked := False\<rparr>)\<rparr>)
                    else (Inr (ReleaseReturn False), st)
                | None \<Rightarrow> (Inr (ReleaseReturn False), st))
           | None \<Rightarrow> (Inr (ReleaseReturn False), st))"

text \<open>
  \<open>/kv/set/{key}\<close>, lines 179 to 210; \<open>sessionId\<close> is the query parameter, empty when
  none was sent. Line 194 dereferences \<open>kvs[key]\<close> without a check: on an absent entry
  it panics, and the unlock of line 207 is not deferred.
\<close>

definition setValue :: "string \<Rightarrow> string \<Rightarrow> string \<Rightarrow> state \<Rightarrow> outcome" where
  "setValue key sessionId val st =
     (if \<not> canLock (kvLock st) then (Inl Blocks, waits st)
      else if sessionId \<noteq> [] then
        (case sessions st sessionId of
           Some s \<Rightarrow>
             if Key s = key then
               (case kvs st key of
                  None \<Rightarrow> (Inl NilDeref, st\<lparr>kvLock := (kvLock st)\<lparr>writer := True\<rparr>\<rparr>)
                | Some v \<Rightarrow> (Inr (SetReturn True), st\<lparr>kvs := (kvs st)(key \<mapsto> v\<lparr>Value := val\<rparr>)\<rparr>))
             else (Inr (SetReturn False), st)
         | None \<Rightarrow> (Inr (SetReturn False), st))
      else
        (case kvs st key of
           None \<Rightarrow> (Inr (SetReturn True), st\<lparr>kvs := (kvs st)(key \<mapsto> \<lparr>Value = val, IsLocked = False\<rparr>)\<rparr>)
         | Some _ \<Rightarrow> (Inr (SetReturn False), st)))"

text \<open>\<open>/kv/get/{key}\<close>, lines 212 to 232.\<close>

definition getValue :: "string \<Rightarrow> state \<Rightarrow> outcome" where
  "getValue key st =
     (if \<not> canRLock (kvLock st) then (Inl Blocks, st)
      else case kvs st key of
             Some v \<Rightarrow> (Inr (GetReturn True key (Value v)), st)
           | None \<Rightarrow> (Inr (GetReturn False [] []), st))"

section \<open>Runs of the service\<close>

text \<open>
  What can happen to the shared state: a request is handled, or the runtime moves a
  timer. \<open>step\<close> gives the state after one of them, \<open>run\<close> after a sequence, from left
  to right. A handler or callback that waits for \<open>kvLock.Lock()\<close> for ever changes
  nothing but \<open>waiting\<close>; a reader that waits and a disabled timer step leave the state
  as it is.
\<close>

datatype event =
    Status
  | Renew string string
  | Destroy string
  | Keys string "string list"
  | Acquire string string string string
  | Release string string
  | SetValue string string string
  | GetValue string
  | Fire nat
  | Expire nat

fun step :: "state \<Rightarrow> event \<Rightarrow> state" where
  "step st Status = snd (status st)"
| "step st (Renew sessionId duration) = snd (renew sessionId duration st)"
| "step st (Destroy sessionId) = snd (destroy sessionId st)"
| "step st (Keys prefix order) = snd (keys prefix order st)"
| "step st (Acquire key duration val newId) = snd (acquire key duration val newId st)"
| "step st (Release key sessionId) = snd (release key sessionId st)"
| "step st (SetValue key sessionId val) = snd (setValue key sessionId val st)"
| "step st (GetValue key) = snd (getValue key st)"
| "step st (Fire h) = (case fire h st of Inr st' \<Rightarrow> st' | Inl _ \<Rightarrow> st)"
| "step st (Expire h) = (case expire h st of Inr (_, st') \<Rightarrow> st' | Inl _ \<Rightarrow> st)"

definition run :: "state \<Rightarrow> event list \<Rightarrow> state" where
  "run st evs = foldl step st evs"

section \<open>Properties of the shared state\<close>

text \<open>
  Every registered session's key has a table entry (\<open>sessionsHaveEntry\<close>), and that
  entry is locked (\<open>sessionsLocked\<close>).
\<close>

definition sessionsHaveEntry :: "state \<Rightarrow> bool" where
  "sessionsHaveEntry st = (\<forall>sid s. sessions st sid = Some s \<longrightarrow> kvs st (Key s) \<noteq> None)"

definition sessionsLocked :: "state \<Rightarrow> bool" where
  "sessionsLocked st =
     (\<forall>sid s. sessions st sid = Some s \<longrightarrow> (\<exists>v. kvs st (Key s) = Some v \<and> IsLocked v))"

text \<open>
  \<open>boundOnlyTo key sid st\<close>: no session registered under another id than \<open>sid\<close> is
  bound to \<open>key\<close>.
\<close>

definition boundOnlyTo :: "string \<Rightarrow> string \<Rightarrow> state \<Rightarrow> bool" where
  "boundOnlyTo key sid st =
     (\<forall>sid' s'. sessions st sid' = Some s' \<and> Key s' = key \<longrightarrow> sid' = sid)"

text \<open>
  What the handlers keep true of the registry and the timers: a session is registered
  under its own id, and its \<open>Timer\<close> is a timer that was made for it.
\<close>

definition armed :: "state \<Rightarrow> bool" where
  "armed st =
     (\<forall>sid s. sessions st sid = Some s \<longrightarrow>
        ID s = sid \<and>
        (\<exists>h. Timer s = Some h \<and> h < length (timers st) \<and>
             tKey (timers st ! h) = Key s \<and> tID (timers st ! h) = sid))"

section \<open>Auxiliary facts\<close>

subsection \<open>Two durations\<close>

lemma ParseInt_10: "ParseInt ''10'' = Inr 10"
  by (simp add: ParseInt_def parseUint_def signedRange_def isDigit_def digitVal_def)

lemma ParseInt_abc: "ParseInt ''abc'' = Inl ErrSyntax"
  by (simp add: ParseInt_def parseUint_def signedRange_def isDigit_def digitVal_def)

text \<open>A duration with a character that is neither a digit nor a sign is refused.\<close>

lemma parseUintLoop_nondigit:
  "c \<in> set cs \<Longrightarrow> \<not> isDigit c \<Longrightarrow> \<exists>e. parseUintLoop cs n = Inl e"
  by (induction cs arbitrary: n) auto

lemma signedRange_Inl: "signedRange neg (Inl e) = Inl e"
  by (cases e) (simp_all add: signedRange_def)

lemma ParseInt_nondigit:
  assumes "c \<in> set s" and "\<not> isDigit c" and "c \<noteq> CHR ''+''" and "c \<noteq> CHR ''-''"
  shows "\<exists>e. ParseInt s = Inl e"
proof (cases s)
  case Nil
  with assms(1) show ?thesis by simp
next
  case (Cons d ds)
  have whole: "\<exists>e. parseUint s = Inl e"
    using parseUintLoop_nondigit [OF assms(1,2)] Cons by (simp add: parseUint_def)
  have rest: "\<exists>e. parseUint ds = Inl e" if "d = CHR ''+'' \<or> d = CHR ''-''"
  proof -
    from that assms Cons have "c \<in> set ds" by auto
    from parseUintLoop_nondigit [OF this assms(2)] show ?thesis
      by (auto simp add: parseUint_def)
  qed
  from whole rest show ?thesis
    by (auto simp add: ParseInt_def Cons signedRange_Inl)
qed

lemmas eval_defs = acquire_def release_def destroy_def setValue_def getValue_def renew_def
  startTimer_def stopTimer_def canLock_def canRLock_def waits_def initial_def run_def ParseInt_10
  ParseInt_abc expire_def fire_def expiryCallback_def

subsection \<open>Waiting for the lock\<close>

lemma waits_fields [simp]:
  "kvs (waits st) = kvs st" "sessions (waits st) = sessions st"
  "timers (waits st) = timers st" "kvLock (waits st) = (kvLock st)\<lparr>waiting := True\<rparr>"
  by (simp_all add: waits_def)

lemma canLock_imp_canRLock: "canLock m \<Longrightarrow> canRLock m"
  by (simp add: canLock_def canRLock_def)

subsection \<open>Timers\<close>

lemma length_stopTimer [simp]: "length (stopTimer h ts) = length ts"
  by (simp add: stopTimer_def)

lemma tKey_stopTimer [simp]: "i < length ts \<Longrightarrow> tKey (stopTimer h ts ! i) = tKey (ts ! i)"
  by (simp add: stopTimer_def nth_list_update)

lemma tID_stopTimer [simp]: "i < length ts \<Longrightarrow> tID (stopTimer h ts ! i) = tID (ts ! i)"
  by (simp add: stopTimer_def nth_list_update)

lemma stopTimer_pending:
  "h < length ts \<Longrightarrow> tStatus (ts ! h) = Pending \<Longrightarrow> tStatus (stopTimer h ts ! h) = Stopped"
  by (simp add: stopTimer_def)

subsection \<open>Sessions and their timers in the states the service reaches\<close>

lemma armed_initial: "armed initial"
  by (simp add: armed_def initial_def)

lemma armed_startTimer:
  assumes others: "\<And>sid s'. sid \<noteq> slot \<Longrightarrow> sessions st sid = Some s' \<Longrightarrow>
              ID s' = sid \<and> (\<exists>h. Timer s' = Some h \<and> h < length (timers st) \<and>
                tKey (timers st ! h) = Key s' \<and> tID (timers st ! h) = sid)"
    and "ID s = slot"
  shows "armed (startTimer duration slot s st)"
  unfolding armed_def
proof (intro allI impI)
  fix sid s'
  assume reg: "sessions (startTimer duration slot s st) sid = Some s'"
  let ?ts = "case Timer s of None \<Rightarrow> timers st | Some h \<Rightarrow> stopTimer h (timers st)"
  have len: "length ?ts = length (timers st)"
    by (simp split: option.splits)
  have tm: "timers (startTimer duration slot s st) =
      ?ts @ [\<lparr>tDuration = duration, tKey = Key s, tID = ID s, tStatus = Pending\<rparr>]"
    by (simp add: startTimer_def Let_def)
  show "ID s' = sid \<and>
       (\<exists>h. Timer s' = Some h \<and> h < length (timers (startTimer duration slot s st)) \<and>
            tKey (timers (startTimer duration slot s st) ! h) = Key s' \<and>
            tID (timers (startTimer duration slot s st) ! h) = sid)"
  proof (cases "sid = slot")
    case True
    with reg have "s' = s\<lparr>Timer := Some (length ?ts)\<rparr>"
      by (simp add: startTimer_def Let_def)
    with True assms(2) tm show ?thesis by simp
  next
    case False
    with reg have "sessions st sid = Some s'"
      by (simp add: startTimer_def Let_def)
    from others [OF False this] obtain h where h: "ID s' = sid" "Timer s' = Some h"
      "h < length (timers st)" "tKey (timers st ! h) = Key s'" "tID (timers st ! h) = sid"
      by blast
    have "tKey (?ts ! h) = Key s'" "tID (?ts ! h) = sid"
      using h by (simp_all split: option.splits)
    with h len tm show ?thesis by (simp add: nth_append)
  qed
qed

lemma armed_waits [simp]: "armed (waits st) = armed st"
  by (simp add: armed_def)

lemma armed_from:
  assumes "armed st"
    and sub: "\<And>sid s. sessions st' sid = Some s \<Longrightarrow> sessions st sid = Some s"
    and len: "length (timers st) \<le> length (timers st')"
    and keep: "\<And>h. h < length (timers st) \<Longrightarrow>
                 tKey (timers st' ! h) = tKey (timers st ! h) \<and>
                 tID (timers st' ! h) = tID (timers st ! h)"
  shows "armed st'"
  unfolding armed_def
proof (intro allI impI)
  fix sid s
  assume "sessions st' sid = Some s"
  then have "sessions st sid = Some s" by (rule sub)
  with \<open>armed st\<close> obtain h where h: "ID s = sid" "Timer s = Some h"
      "h < length (timers st)" "tKey (timers st ! h) = Key s" "tID (timers st ! h) = sid"
    unfolding armed_def by blast
  with len keep [of h] show "ID s = sid \<and>
       (\<exists>h. Timer s = Some h \<and> h < length (timers st') \<and>
            tKey (timers st' ! h) = Key s \<and> tID (timers st' ! h) = sid)"
    by simp
qed

lemma armed_renew: "armed st \<Longrightarrow> armed (snd (renew sessionId duration st))"
proof -
  assume a: "armed st"
  have "armed (startTimer interval sessionId s st)" if "sessions st sessionId = Some s"
    for interval s
  proof (rule armed_startTimer)
    show "ID s = sessionId" using a that by (simp add: armed_def)
  next
    fix sid s' assume "sid \<noteq> sessionId" "sessions st sid = Some s'"
    with a show "ID s' = sid \<and> (\<exists>h. Timer s' = Some h \<and> h < length (timers st) \<and>
                tKey (timers st ! h) = Key s' \<and> tID (timers st ! h) = sid)"
      by (simp add: armed_def)
  qed
  with a show ?thesis
    by (simp add: renew_def split: sum.splits option.splits)
qed

lemma armed_acquire: "armed st \<Longrightarrow> armed (snd (acquire key duration val newId st))"
proof -
  assume a: "armed st"
  have "armed (startTimer interval newId \<lparr>ID = newId, Key = key, Timer = None\<rparr>
          (st\<lparr>kvs := m, sessions := (sessions st)(newId \<mapsto> \<lparr>ID = newId, Key = key, Timer = None\<rparr>)\<rparr>))"
    for interval m
  proof (rule armed_startTimer)
    show "ID \<lparr>ID = newId, Key = key, Timer = None\<rparr> = newId" by simp
  next
    fix sid s'
    assume "sid \<noteq> newId"
      "sessions (st\<lparr>kvs := m, sessions := (sessions st)(newId \<mapsto> \<lparr>ID = newId, Key = key, Timer = None\<rparr>)\<rparr>) sid = Some s'"
    with a show "ID s' = sid \<and> (\<exists>h. Timer s' = Some h \<and>
          h < length (timers (st\<lparr>kvs := m, sessions := (sessions st)(newId \<mapsto> \<lparr>ID = newId, Key = key, Timer = None\<rparr>)\<rparr>)) \<and>
          tKey (timers (st\<lparr>kvs := m, sessions := (sessions st)(newId \<mapsto> \<lparr>ID = newId, Key = key, Timer = None\<rparr>)\<rparr>) ! h) = Key s' \<and>
          tID (timers (st\<lparr>kvs := m, sessions := (sessions st)(newId \<mapsto> \<lparr>ID = newId, Key = key, Timer = None\<rparr>)\<rparr>) ! h) = sid)"
      by (simp add: armed_def)
  qed
  moreover have "armed (st\<lparr>kvLock := l\<rparr>)" "armed (st\<lparr>kvs := m\<rparr>)" "armed (st\<lparr>kvs := m, kvLock := l\<rparr>)" for l m
    using a by (simp_all add: armed_def)
  ultimately show ?thesis using a
    by (simp add: acquire_def Let_def split: sum.splits option.splits)
qed

lemma armed_step: "armed st \<Longrightarrow> armed (step st ev)"
proof (cases ev)
  case (Acquire key duration val newId)
  assume "armed st"
  then show ?thesis using Acquire by (simp add: armed_acquire)
next
  case (Renew sessionId duration)
  assume "armed st"
  then show ?thesis using Renew by (simp add: armed_renew)
next
  case (Destroy sessionId)
  assume a: "armed st"
  show ?thesis unfolding Destroy step.simps
    by (rule armed_from [OF a])
       (auto simp add: destroy_def split: option.splits if_splits)
next
  case (Expire h)
  assume a: "armed st"
  show ?thesis unfolding Expire step.simps
    by (rule armed_from [OF a])
       (auto simp add: expire_def expiryCallback_def nth_list_update
             split: option.splits if_splits sum.splits prod.splits)
next
  case (Fire h)
  assume a: "armed st"
  show ?thesis unfolding Fire step.simps
    by (rule armed_from [OF a])
       (auto simp add: fire_def nth_list_update split: if_splits sum.splits)
qed (auto simp add: armed_def status_def keys_def release_def
      setValue_def getValue_def split: option.splits sum.splits if_splits)

lemma armed_run: "armed st \<Longrightarrow> armed (run st evs)"
  unfolding run_def by (induction evs arbitrary: st) (simp_all add: armed_step)

section \<open>The claims\<close>

subsection \<open>Set without a session id\<close>

text \<open>
  C7. \<open>set(key, value)\<close> without a session id replies \<open>success=true\<close> exactly when
  the key has no table entry, and then creates the entry with the value given and
  \<open>isLocked=false\<close>; on a key that has an entry, locked or not, it replies
  \<open>success=false\<close> and leaves the whole state as it was.
\<close>

theorem set_without_session_creates_only:
  assumes "canLock (kvLock st)"
  shows "(fst (setValue key [] val st) = Inr (SetReturn True)) = (kvs st key = None)
     \<and> (kvs st key = None \<longrightarrow>
          setValue key [] val st =
            (Inr (SetReturn True), st\<lparr>kvs := (kvs st)(key \<mapsto> \<lparr>Value = val, IsLocked = False\<rparr>)\<rparr>))
     \<and> (kvs st key \<noteq> None \<longrightarrow> setValue key [] val st = (Inr (SetReturn False), st))"
  using assms by (simp add: setValue_def split: option.splits)

theorem set_without_session_creates_only_witness:
  "canLock (kvLock initial)
   \<and> setValue ''k'' [] ''v'' initial =
        (Inr (SetReturn True), initial\<lparr>kvs := [''k'' \<mapsto> \<lparr>Value = ''v'', IsLocked = False\<rparr>]\<rparr>)
   \<and> setValue ''k'' [] ''w'' (snd (setValue ''k'' [] ''v'' initial)) =
        (Inr (SetReturn False), snd (setValue ''k'' [] ''v'' initial))"
  using set_without_session_creates_only [of initial "''k''" "''v''"]
    set_without_session_creates_only [of "snd (setValue ''k'' [] ''v'' initial)" "''k''" "''w''"]
  by (simp add: eval_defs)

subsection \<open>Release\<close>

text \<open>
  C5. \<open>release(key, sessionId)\<close> replies \<open>success=true\<close> exactly when the key has a
  table entry, a session is registered under \<open>sessionId\<close>, and that session's key is
  the key asked for. Then the only change is that the entry's \<open>isLocked\<close> is false:
  \<open>get(key)\<close> still finds the old value, the registry and the timers are as before
  (the session stays registered, its timer as it was), and an acquire on the key that
  follows, with a duration that parses, succeeds. In every other case release replies
  \<open>success=false\<close> and the state is unchanged.
\<close>

theorem release_only_clears_flag:
  assumes "canLock (kvLock st)"
  shows "(fst (release key sessionId st) = Inr (ReleaseReturn True)) =
           (\<exists>v s. kvs st key = Some v \<and> sessions st sessionId = Some s \<and> Key s = key)
     \<and> (\<forall>v s. kvs st key = Some v \<and> sessions st sessionId = Some s \<and> Key s = key \<longrightarrow>
           release key sessionId st =
             (Inr (ReleaseReturn True), st\<lparr>kvs := (kvs st)(key \<mapsto> v\<lparr>IsLocked := False\<rparr>)\<rparr>)
         \<and> getValue key (snd (release key sessionId st)) =
             (Inr (GetReturn True key (Value v)), snd (release key sessionId st))
         \<and> sessions (snd (release key sessionId st)) = sessions st
         \<and> timers (snd (release key sessionId st)) = timers st
         \<and> (\<forall>duration interval val newId. ParseInt duration = Inr interval \<longrightarrow>
               fst (acquire key duration val newId (snd (release key sessionId st))) =
                 Inr (AcquireReturn newId True)))
     \<and> (\<not> (\<exists>v s. kvs st key = Some v \<and> sessions st sessionId = Some s \<and> Key s = key) \<longrightarrow>
           release key sessionId st = (Inr (ReleaseReturn False), st))"
  using assms
  by (auto simp add: release_def getValue_def acquire_def canLock_def canRLock_def Let_def
      split: option.splits)

theorem release_only_clears_flag_witness:
  "canLock (kvLock (run initial [Acquire ''k'' ''10'' ''v'' ''s0'']))
   \<and> release ''k'' ''s0'' (run initial [Acquire ''k'' ''10'' ''v'' ''s0'']) =
        (Inr (ReleaseReturn True),
         (run initial [Acquire ''k'' ''10'' ''v'' ''s0''])\<lparr>kvs := (kvs (run initial [Acquire ''k'' ''10'' ''v'' ''s0'']))(''k'' \<mapsto> \<lparr>Value = ''v'', IsLocked = False\<rparr>)\<rparr>)
   \<and> fst (getValue ''k'' (snd (release ''k'' ''s0'' (run initial [Acquire ''k'' ''10'' ''v'' ''s0''])))) = Inr (GetReturn True ''k'' ''v'')
   \<and> sessions (snd (release ''k'' ''s0'' (run initial [Acquire ''k'' ''10'' ''v'' ''s0'']))) ''s0'' =
        Some \<lparr>ID = ''s0'', Key = ''k'', Timer = Some 0\<rparr>
   \<and> tStatus (timers (snd (release ''k'' ''s0'' (run initial [Acquire ''k'' ''10'' ''v'' ''s0'']))) ! 0) = Pending
   \<and> fst (acquire ''k'' ''10'' ''w'' ''s1'' (snd (release ''k'' ''s0'' (run initial [Acquire ''k'' ''10'' ''v'' ''s0''])))) =
        Inr (AcquireReturn ''s1'' True)
   \<and> release ''k'' ''s1'' (run initial [Acquire ''k'' ''10'' ''v'' ''s0'']) = (Inr (ReleaseReturn False), (run initial [Acquire ''k'' ''10'' ''v'' ''s0'']))
   \<and> release ''j'' ''s0'' (run initial [Acquire ''k'' ''10'' ''v'' ''s0'']) = (Inr (ReleaseReturn False), (run initial [Acquire ''k'' ''10'' ''v'' ''s0'']))"
  using release_only_clears_flag [of "(run initial [Acquire ''k'' ''10'' ''v'' ''s0''])" "''k''" "''s0''"]
    release_only_clears_flag [of "(run initial [Acquire ''k'' ''10'' ''v'' ''s0''])" "''k''" "''s1''"]
    release_only_clears_flag [of "(run initial [Acquire ''k'' ''10'' ''v'' ''s0''])" "''j''" "''s0''"]
  by (simp add: eval_defs)

subsection \<open>Durations that do not parse\<close>



text \<open>
  The error return of acquire leaves \<open>kvLock\<close> write-locked (line 119 returns between
  \<open>Lock\<close> and \<open>Unlock\<close>), so the request after it waits for ever; renew defers its
  unlock and leaves the lock free.
\<close>

lemma acquire_bad_duration_keeps_lock:
  assumes "canLock (kvLock st)" and "ParseInt duration = Inl err"
  shows "writer (kvLock (snd (acquire key duration val newId st)))"
    and "fst (getValue key' (snd (acquire key duration val newId st))) = Inl Blocks"
  using assms by (simp_all add: acquire_def getValue_def canRLock_def)

subsection \<open>Destroy\<close>

text \<open>
  C8. In a state that the service reaches, \<open>destroy(sessionId)\<close> of a registered
  session stops the session's timer (a timer that was pending is stopped), deletes the
  table entry of the session's key, value included, so that a get on that key finds
  nothing, and deletes the session from the registry; when no session is registered
  under the id, destroy changes nothing and reports no error.
\<close>

theorem destroy_removes_session_and_key:
  assumes "st = run initial evs" and "canLock (kvLock st)"
  shows "(\<forall>s. sessions st sessionId = Some s \<longrightarrow>
            (\<exists>h. Timer s = Some h \<and> h < length (timers st) \<and>
                 tKey (timers st ! h) = Key s \<and> tID (timers st ! h) = sessionId \<and>
                 destroy sessionId st =
                   (Inr NoBody, st\<lparr>timers := stopTimer h (timers st),
                                    kvs := (kvs st)(Key s := None),
                                    sessions := (sessions st)(sessionId := None)\<rparr>) \<and>
                 (tStatus (timers st ! h) = Pending \<longrightarrow>
                    tStatus (timers (snd (destroy sessionId st)) ! h) = Stopped) \<and>
                 getValue (Key s) (snd (destroy sessionId st)) =
                   (Inr (GetReturn False [] []), snd (destroy sessionId st))))
     \<and> (sessions st sessionId = None \<longrightarrow> destroy sessionId st = (Inr NoBody, st))"
proof -
  have "armed st" using assms(1) armed_initial by (simp add: armed_run)
  have "\<exists>h. Timer s = Some h \<and> h < length (timers st) \<and>
                 tKey (timers st ! h) = Key s \<and> tID (timers st ! h) = sessionId \<and>
                 destroy sessionId st =
                   (Inr NoBody, st\<lparr>timers := stopTimer h (timers st),
                                    kvs := (kvs st)(Key s := None),
                                    sessions := (sessions st)(sessionId := None)\<rparr>) \<and>
                 (tStatus (timers st ! h) = Pending \<longrightarrow>
                    tStatus (timers (snd (destroy sessionId st)) ! h) = Stopped) \<and>
                 getValue (Key s) (snd (destroy sessionId st)) =
                   (Inr (GetReturn False [] []), snd (destroy sessionId st))"
    if reg: "sessions st sessionId = Some s" for s
  proof -
    from \<open>armed st\<close> reg obtain h where h: "Timer s = Some h" "h < length (timers st)"
      "tKey (timers st ! h) = Key s" "tID (timers st ! h) = sessionId"
      unfolding armed_def by blast
    have d: "destroy sessionId st =
        (Inr NoBody, st\<lparr>timers := stopTimer h (timers st),
                         kvs := (kvs st)(Key s := None),
                         sessions := (sessions st)(sessionId := None)\<rparr>)"
      using assms(2) reg h(1) by (simp add: destroy_def)
    have "tStatus (timers st ! h) = Pending \<longrightarrow>
            tStatus (timers (snd (destroy sessionId st)) ! h) = Stopped"
      using h(2) by (simp add: d stopTimer_pending)
    moreover have "getValue (Key s) (snd (destroy sessionId st)) =
        (Inr (GetReturn False [] []), snd (destroy sessionId st))"
      using assms(2) by (simp add: d getValue_def canLock_def canRLock_def)
    ultimately show ?thesis using h d by blast
  qed
  moreover have "sessions st sessionId = None \<longrightarrow> destroy sessionId st = (Inr NoBody, st)"
    using assms(2) by (simp add: destroy_def)
  ultimately show ?thesis by blast
qed

theorem destroy_removes_session_and_key_witness:
  "canLock (kvLock (run initial [Acquire ''k'' ''10'' ''v'' ''s0'']))
   \<and> sessions (run initial [Acquire ''k'' ''10'' ''v'' ''s0'']) ''s0''
        = Some \<lparr>ID = ''s0'', Key = ''k'', Timer = Some 0\<rparr>
   \<and> kvs (run initial [Acquire ''k'' ''10'' ''v'' ''s0'']) ''k''
        = Some \<lparr>Value = ''v'', IsLocked = True\<rparr>
   \<and> fst (destroy ''s0'' (run initial [Acquire ''k'' ''10'' ''v'' ''s0''])) = Inr NoBody
   \<and> kvs (snd (destroy ''s0'' (run initial [Acquire ''k'' ''10'' ''v'' ''s0'']))) ''k'' = None
   \<and> sessions (snd (destroy ''s0'' (run initial [Acquire ''k'' ''10'' ''v'' ''s0'']))) ''s0'' = None
   \<and> tStatus (timers (snd (destroy ''s0'' (run initial [Acquire ''k'' ''10'' ''v'' ''s0'']))) ! 0) = Stopped
   \<and> destroy ''s1'' (run initial [Acquire ''k'' ''10'' ''v'' ''s0''])
        = (Inr NoBody, run initial [Acquire ''k'' ''10'' ''v'' ''s0''])"
  using destroy_removes_session_and_key
    [of "run initial [Acquire ''k'' ''10'' ''v'' ''s0'']" "[Acquire ''k'' ''10'' ''v'' ''s0'']" "''s0''"]
    destroy_removes_session_and_key
    [of "run initial [Acquire ''k'' ''10'' ''v'' ''s0'']" "[Acquire ''k'' ''10'' ''v'' ''s0'']" "''s1''"]
  by (simp add: eval_defs)

subsection \<open>Expiry\<close>

text \<open>
  A timer keeps its place in \<open>timers\<close> and the key and id it was made for, whatever
  happens afterwards; only its status changes.
\<close>

lemma timers_startTimer:
  assumes "h < length (timers st)"
  shows "h < length (timers (startTimer duration slot s st))
     \<and> tKey (timers (startTimer duration slot s st) ! h) = tKey (timers st ! h)
     \<and> tID (timers (startTimer duration slot s st) ! h) = tID (timers st ! h)"
  using assms by (simp add: startTimer_def Let_def nth_append split: option.splits)

lemma timers_step:
  assumes "h < length (timers st)"
  shows "h < length (timers (step st ev))
     \<and> tKey (timers (step st ev) ! h) = tKey (timers st ! h)
     \<and> tID (timers (step st ev) ! h) = tID (timers st ! h)"
proof (cases ev)
  case (Renew sessionId duration)
  show ?thesis using assms timers_startTimer [OF assms]
    by (simp add: Renew renew_def split: sum.splits option.splits)
next
  case (Acquire key duration val newId)
  have "h < length (timers (st\<lparr>kvs := m, sessions := r\<rparr>))" for m r
    using assms by simp
  from timers_startTimer [OF this] show ?thesis using assms
    by (simp add: Acquire acquire_def Let_def split: sum.splits option.splits)
qed (use assms in \<open>auto simp add: status_def destroy_def keys_def release_def setValue_def
      getValue_def fire_def expire_def expiryCallback_def nth_list_update
      split: option.splits sum.splits if_splits prod.splits\<close>)

lemma timers_run:
  assumes "h < length (timers st)"
  shows "h < length (timers (run st evs))
     \<and> tKey (timers (run st evs) ! h) = tKey (timers st ! h)
     \<and> tID (timers (run st evs) ! h) = tID (timers st ! h)"
  using assms unfolding run_def
proof (induction evs arbitrary: st)
  case Nil
  then show ?case by simp
next
  case (Cons ev evs)
  from timers_step [OF Cons.prems, of ev] Cons.IH [of "step st ev"]
  show ?case by simp
qed

lemma acquire_arms:
  assumes "acquire key duration val newId st = (Inr (AcquireReturn newId True), st1)"
  shows "length (timers st) < length (timers st1)
     \<and> tKey (timers st1 ! length (timers st)) = key
     \<and> tID (timers st1 ! length (timers st)) = newId
     \<and> tStatus (timers st1 ! length (timers st)) = Pending"
  using assms
  by (auto simp add: acquire_def startTimer_def Let_def split: sum.splits option.splits if_splits)

lemma expire_effect:
  assumes "expire h st = Inr (Inr r, st')"
  shows "kvs st' = (kvs st)(tKey (timers st ! h) := None)
     \<and> sessions st' = (sessions st)(tID (timers st ! h) := None)
     \<and> timers st' = (timers st)[h := (timers st ! h)\<lparr>tStatus := Done\<rparr>]
     \<and> kvLock st' = kvLock st \<and> canLock (kvLock st) \<and> r = NoBody"
  using assms
  by (auto simp add: expire_def expiryCallback_def split: if_splits)

lemma renew_arms:
  assumes "canLock (kvLock st)" and "ParseInt duration = Inr interval"
    and "sessions st slot = Some s"
  shows "renew slot duration st = (Inr NoBody, snd (renew slot duration st))
     \<and> length (timers st) < length (timers (snd (renew slot duration st)))
     \<and> tKey (timers (snd (renew slot duration st)) ! length (timers st)) = Key s
     \<and> tID (timers (snd (renew slot duration st)) ! length (timers st)) = ID s
     \<and> tStatus (timers (snd (renew slot duration st)) ! length (timers st)) = Pending"
  using assms
  by (simp add: renew_def startTimer_def Let_def nth_append split: option.splits)

lemma expire_fired:
  assumes "h < length (timers st)" and "tStatus (timers st ! h) = Fired"
    and "canLock (kvLock st)"
  shows "expire h st =
     Inr (Inr NoBody, st\<lparr>kvs := (kvs st)(tKey (timers st ! h) := None),
                         sessions := (sessions st)(tID (timers st ! h) := None),
                         timers := (timers st)[h := (timers st ! h)\<lparr>tStatus := Done\<rparr>]\<rparr>)"
  using assms by (simp add: expire_def expiryCallback_def)

lemma fire_pending:
  assumes "h < length (timers st)" and "tStatus (timers st ! h) = Pending"
  shows "fire h st = Inr (st\<lparr>timers := (timers st)[h := (timers st ! h)\<lparr>tStatus := Fired\<rparr>]\<rparr>)"
  using assms by (simp add: fire_def)

text \<open>
  C4. A timer is armed by \<open>startTimer\<close>, for the session \<open>sid\<close> of \<open>key\<close> that a
  successful acquire has registered or for a registered session that is renewed; its
  handle is \<open>length (timers st0)\<close>. Whatever requests and timer steps \<open>evs\<close> follow, once
  that timer has fired and the lock is free its callback runs, and it deletes the table
  entry of \<open>key\<close> and the registry entry of \<open>sid\<close> and nothing else (the lock is free
  again, the timer is marked as done); after it \<open>get(key)\<close> finds nothing, and \<open>renew\<close>
  (with a duration that parses) and \<open>destroy\<close> of \<open>sid\<close> change nothing and report no
  error.
\<close>

theorem expiry_deletes_key_and_session:
  assumes arm: "acquire key duration val sid st0 = (Inr (AcquireReturn sid True), st1)
      \<or> (\<exists>slot s interval. canLock (kvLock st0) \<and> ParseInt duration = Inr interval \<and>
            sessions st0 slot = Some s \<and> Key s = key \<and> ID s = sid \<and>
            st1 = snd (renew slot duration st0))"
    and later: "st2 = run st1 evs"
    and fired: "tStatus (timers st2 ! length (timers st0)) = Fired"
    and free: "canLock (kvLock st2)"
  shows "\<exists>st3. expire (length (timers st0)) st2 = Inr (Inr NoBody, st3)
     \<and> kvs st3 = (kvs st2)(key := None)
     \<and> sessions st3 = (sessions st2)(sid := None)
     \<and> kvLock st3 = kvLock st2
     \<and> timers st3 = (timers st2)[length (timers st0) :=
                        (timers st2 ! length (timers st0))\<lparr>tStatus := Done\<rparr>]
     \<and> getValue key st3 = (Inr (GetReturn False [] []), st3)
     \<and> (\<forall>d interval. ParseInt d = Inr interval \<longrightarrow> renew sid d st3 = (Inr NoBody, st3))
     \<and> destroy sid st3 = (Inr NoBody, st3)"
proof -
  let ?h = "length (timers st0)"
  have a: "?h < length (timers st1) \<and> tKey (timers st1 ! ?h) = key \<and> tID (timers st1 ! ?h) = sid"
    using arm
  proof
    assume "acquire key duration val sid st0 = (Inr (AcquireReturn sid True), st1)"
    from acquire_arms [OF this] show ?thesis by simp
  next
    assume "\<exists>slot s interval. canLock (kvLock st0) \<and> ParseInt duration = Inr interval \<and>
            sessions st0 slot = Some s \<and> Key s = key \<and> ID s = sid \<and>
            st1 = snd (renew slot duration st0)"
    then obtain slot s interval where r: "canLock (kvLock st0)" "ParseInt duration = Inr interval"
      "sessions st0 slot = Some s" "Key s = key" "ID s = sid" "st1 = snd (renew slot duration st0)"
      by blast
    from renew_arms [OF r(1,2,3)] r(4,5,6) show ?thesis by simp
  qed
  with timers_run [of ?h st1 evs] later
  have t: "?h < length (timers st2)" "tKey (timers st2 ! ?h) = key" "tID (timers st2 ! ?h) = sid"
    by simp_all
  let ?st3 = "st2\<lparr>kvs := (kvs st2)(key := None), sessions := (sessions st2)(sid := None),
                  timers := (timers st2)[?h := (timers st2 ! ?h)\<lparr>tStatus := Done\<rparr>]\<rparr>"
  have e: "expire ?h st2 = Inr (Inr NoBody, ?st3)"
    using expire_fired [OF t(1) fired free] t by simp
  have g: "getValue key ?st3 = (Inr (GetReturn False [] []), ?st3)"
    using free by (simp add: getValue_def canLock_def canRLock_def)
  have r: "\<forall>d interval. ParseInt d = Inr interval \<longrightarrow> renew sid d ?st3 = (Inr NoBody, ?st3)"
    using free by (simp add: renew_def)
  have d: "destroy sid ?st3 = (Inr NoBody, ?st3)"
    using free by (simp add: destroy_def)
  show ?thesis
    by (rule exI [of _ ?st3]) (simp add: e g r d)
qed


theorem expiry_deletes_key_and_session_witness:
  "acquire ''k'' ''10'' ''v'' ''s0'' initial = (Inr (AcquireReturn ''s0'' True), (run initial [Acquire ''k'' ''10'' ''v'' ''s0'']))
   \<and> tStatus (timers (run (run initial [Acquire ''k'' ''10'' ''v'' ''s0'']) [SetValue ''k'' ''s0'' ''w'', Fire 0]) ! 0) = Fired
   \<and> canLock (kvLock (run (run initial [Acquire ''k'' ''10'' ''v'' ''s0'']) [SetValue ''k'' ''s0'' ''w'', Fire 0]))
   \<and> kvs (run (run initial [Acquire ''k'' ''10'' ''v'' ''s0'']) [SetValue ''k'' ''s0'' ''w'', Fire 0]) ''k''
       = Some \<lparr>Value = ''w'', IsLocked = True\<rparr>
   \<and> (\<exists>st3. expire 0 (run (run initial [Acquire ''k'' ''10'' ''v'' ''s0'']) [SetValue ''k'' ''s0'' ''w'', Fire 0]) = Inr (Inr NoBody, st3)
        \<and> kvs st3 ''k'' = None \<and> sessions st3 ''s0'' = None
        \<and> getValue ''k'' st3 = (Inr (GetReturn False [] []), st3)
        \<and> renew ''s0'' ''10'' st3 = (Inr NoBody, st3)
        \<and> destroy ''s0'' st3 = (Inr NoBody, st3))
   \<and> canLock (kvLock (run initial [Acquire ''k'' ''10'' ''v'' ''s0'']))
   \<and> sessions (run initial [Acquire ''k'' ''10'' ''v'' ''s0'']) ''s0'' = Some \<lparr>ID = ''s0'', Key = ''k'', Timer = Some 0\<rparr>
   \<and> tStatus (timers (run (snd (renew ''s0'' ''10'' (run initial [Acquire ''k'' ''10'' ''v'' ''s0'']))) [Fire 1]) ! 0) = Stopped
   \<and> tStatus (timers (run (snd (renew ''s0'' ''10'' (run initial [Acquire ''k'' ''10'' ''v'' ''s0'']))) [Fire 1]) ! 1) = Fired
   \<and> canLock (kvLock (run (snd (renew ''s0'' ''10'' (run initial [Acquire ''k'' ''10'' ''v'' ''s0'']))) [Fire 1]))
   \<and> (\<exists>st3. expire 1 (run (snd (renew ''s0'' ''10'' (run initial [Acquire ''k'' ''10'' ''v'' ''s0'']))) [Fire 1]) = Inr (Inr NoBody, st3)
        \<and> kvs st3 ''k'' = None \<and> sessions st3 ''s0'' = None
        \<and> getValue ''k'' st3 = (Inr (GetReturn False [] []), st3)
        \<and> renew ''s0'' ''10'' st3 = (Inr NoBody, st3)
        \<and> destroy ''s0'' st3 = (Inr NoBody, st3))"
proof -
  have a: "acquire ''k'' ''10'' ''v'' ''s0'' initial = (Inr (AcquireReturn ''s0'' True), (run initial [Acquire ''k'' ''10'' ''v'' ''s0'']))"
    by (simp add: eval_defs)
  have z: "length (timers initial) = 0" "length (timers (run initial [Acquire ''k'' ''10'' ''v'' ''s0''])) = 1"
    by (simp_all add: eval_defs)
  have f: "tStatus (timers (run (run initial [Acquire ''k'' ''10'' ''v'' ''s0'']) [SetValue ''k'' ''s0'' ''w'', Fire 0]) ! 0) = Fired"
    "canLock (kvLock (run (run initial [Acquire ''k'' ''10'' ''v'' ''s0'']) [SetValue ''k'' ''s0'' ''w'', Fire 0]))"
    "kvs (run (run initial [Acquire ''k'' ''10'' ''v'' ''s0'']) [SetValue ''k'' ''s0'' ''w'', Fire 0]) ''k'' = Some \<lparr>Value = ''w'', IsLocked = True\<rparr>"
    by (simp_all add: eval_defs)
  have r: "canLock (kvLock (run initial [Acquire ''k'' ''10'' ''v'' ''s0'']))"
    "sessions (run initial [Acquire ''k'' ''10'' ''v'' ''s0'']) ''s0'' = Some \<lparr>ID = ''s0'', Key = ''k'', Timer = Some 0\<rparr>"
    by (simp_all add: eval_defs)
  have g: "tStatus (timers (run (snd (renew ''s0'' ''10'' (run initial [Acquire ''k'' ''10'' ''v'' ''s0'']))) [Fire 1]) ! 0) = Stopped"
    "tStatus (timers (run (snd (renew ''s0'' ''10'' (run initial [Acquire ''k'' ''10'' ''v'' ''s0'']))) [Fire 1]) ! 1) = Fired"
    "canLock (kvLock (run (snd (renew ''s0'' ''10'' (run initial [Acquire ''k'' ''10'' ''v'' ''s0'']))) [Fire 1]))"
    by (simp_all add: eval_defs)
  have arm1: "acquire ''k'' ''10'' ''v'' ''s0'' initial = (Inr (AcquireReturn ''s0'' True), (run initial [Acquire ''k'' ''10'' ''v'' ''s0'']))
      \<or> (\<exists>slot s interval. canLock (kvLock initial) \<and> ParseInt ''10'' = Inr interval \<and>
            sessions initial slot = Some s \<and> Key s = ''k'' \<and> ID s = ''s0'' \<and>
            (run initial [Acquire ''k'' ''10'' ''v'' ''s0'']) = snd (renew slot ''10'' initial))"
    using a by simp
  have arm2: "acquire ''k'' ''10'' ''v'' ''s0'' (run initial [Acquire ''k'' ''10'' ''v'' ''s0''])
        = (Inr (AcquireReturn ''s0'' True), snd (renew ''s0'' ''10'' (run initial [Acquire ''k'' ''10'' ''v'' ''s0''])))
      \<or> (\<exists>slot s interval. canLock (kvLock (run initial [Acquire ''k'' ''10'' ''v'' ''s0''])) \<and> ParseInt ''10'' = Inr interval \<and>
            sessions (run initial [Acquire ''k'' ''10'' ''v'' ''s0'']) slot = Some s \<and> Key s = ''k'' \<and> ID s = ''s0'' \<and>
            snd (renew ''s0'' ''10'' (run initial [Acquire ''k'' ''10'' ''v'' ''s0''])) = snd (renew slot ''10'' (run initial [Acquire ''k'' ''10'' ''v'' ''s0''])))"
    by (rule disjI2, rule exI [of _ "''s0''"],
        rule exI [of _ "\<lparr>ID = ''s0'', Key = ''k'', Timer = Some 0\<rparr>"], rule exI [of _ 10])
       (simp add: r ParseInt_10)
  have w1: "\<exists>st3. expire 0 (run (run initial [Acquire ''k'' ''10'' ''v'' ''s0'']) [SetValue ''k'' ''s0'' ''w'', Fire 0]) = Inr (Inr NoBody, st3)
        \<and> kvs st3 ''k'' = None \<and> sessions st3 ''s0'' = None
        \<and> getValue ''k'' st3 = (Inr (GetReturn False [] []), st3)
        \<and> renew ''s0'' ''10'' st3 = (Inr NoBody, st3)
        \<and> destroy ''s0'' st3 = (Inr NoBody, st3)"
  proof -
    from expiry_deletes_key_and_session [OF arm1 refl, of "[SetValue ''k'' ''s0'' ''w'', Fire 0]"] f z
    obtain st3 where "expire 0 (run (run initial [Acquire ''k'' ''10'' ''v'' ''s0'']) [SetValue ''k'' ''s0'' ''w'', Fire 0]) = Inr (Inr NoBody, st3)"
      "kvs st3 = (kvs (run (run initial [Acquire ''k'' ''10'' ''v'' ''s0'']) [SetValue ''k'' ''s0'' ''w'', Fire 0]))(''k'' := None)"
      "sessions st3 = (sessions (run (run initial [Acquire ''k'' ''10'' ''v'' ''s0'']) [SetValue ''k'' ''s0'' ''w'', Fire 0]))(''s0'' := None)"
      "getValue ''k'' st3 = (Inr (GetReturn False [] []), st3)"
      "\<forall>d interval. ParseInt d = Inr interval \<longrightarrow> renew ''s0'' d st3 = (Inr NoBody, st3)"
      "destroy ''s0'' st3 = (Inr NoBody, st3)"
      by auto
    then show ?thesis using ParseInt_10 by (intro exI [of _ st3]) simp
  qed
  have w2: "\<exists>st3. expire 1 (run (snd (renew ''s0'' ''10'' (run initial [Acquire ''k'' ''10'' ''v'' ''s0'']))) [Fire 1]) = Inr (Inr NoBody, st3)
        \<and> kvs st3 ''k'' = None \<and> sessions st3 ''s0'' = None
        \<and> getValue ''k'' st3 = (Inr (GetReturn False [] []), st3)
        \<and> renew ''s0'' ''10'' st3 = (Inr NoBody, st3)
        \<and> destroy ''s0'' st3 = (Inr NoBody, st3)"
  proof -
    from expiry_deletes_key_and_session [OF arm2 refl, of "[Fire 1]"] g z
    obtain st3 where "expire 1 (run (snd (renew ''s0'' ''10'' (run initial [Acquire ''k'' ''10'' ''v'' ''s0'']))) [Fire 1]) = Inr (Inr NoBody, st3)"
      "kvs st3 = (kvs (run (snd (renew ''s0'' ''10'' (run initial [Acquire ''k'' ''10'' ''v'' ''s0'']))) [Fire 1]))(''k'' := None)"
      "sessions st3 = (sessions (run (snd (renew ''s0'' ''10'' (run initial [Acquire ''k'' ''10'' ''v'' ''s0'']))) [Fire 1]))(''s0'' := None)"
      "getValue ''k'' st3 = (Inr (GetReturn False [] []), st3)"
      "\<forall>d interval. ParseInt d = Inr interval \<longrightarrow> renew ''s0'' d st3 = (Inr NoBody, st3)"
      "destroy ''s0'' st3 = (Inr NoBody, st3)"
      by auto
    then show ?thesis using ParseInt_10 by (intro exI [of _ st3]) simp
  qed
  from a f r g w1 w2 show ?thesis by blast
qed

text \<open>
  The timer of a session that was acquired in a state the service reaches stays pending
  as long as the session is neither renewed nor destroyed, so it can fire; with the lock
  free its callback then runs, and the key and the session are gone.
\<close>

lemma status_stopTimer_other:
  "h < length ts \<Longrightarrow> h' \<noteq> h \<Longrightarrow> tStatus (stopTimer h' ts ! h) = tStatus (ts ! h)"
  by (simp add: stopTimer_def)

lemma pending_step:
  assumes a: "armed st" and h: "h < length (timers st)"
    and p: "tStatus (timers st ! h) = Pending"
    and nr: "\<And>d. ev \<noteq> Renew (tID (timers st ! h)) d"
    and nd: "ev \<noteq> Destroy (tID (timers st ! h))"
    and nf: "ev \<noteq> Fire h"
  shows "tStatus (timers (step st ev) ! h) = Pending"
proof (cases ev)
  case (Renew slot d)
  with nr have ne: "slot \<noteq> tID (timers st ! h)" by auto
  show ?thesis
  proof (cases "sessions st slot")
    case None
    with p show ?thesis by (simp add: Renew renew_def split: sum.splits)
  next
    case (Some s)
    with a obtain h' where h': "Timer s = Some h'" "tID (timers st ! h') = slot"
      unfolding armed_def by blast
    with ne have "h' \<noteq> h" by auto
    with h p h' Some show ?thesis
      by (simp add: Renew renew_def startTimer_def Let_def nth_append status_stopTimer_other
          split: sum.splits)
  qed
next
  case (Destroy slot)
  with nd have ne: "slot \<noteq> tID (timers st ! h)" by auto
  show ?thesis
  proof (cases "sessions st slot")
    case None
    with p show ?thesis by (simp add: Destroy destroy_def)
  next
    case (Some s)
    with a obtain h' where h': "Timer s = Some h'" "tID (timers st ! h') = slot"
      unfolding armed_def by blast
    with ne have "h' \<noteq> h" by auto
    with h p h' Some show ?thesis
      by (simp add: Destroy destroy_def status_stopTimer_other)
  qed
next
  case (Acquire key duration val newId)
  with h p show ?thesis
    by (simp add: acquire_def startTimer_def Let_def nth_append split: sum.splits option.splits)
next
  case (Fire h')
  with nf have "h' \<noteq> h" by simp
  with h p show ?thesis by (simp add: Fire fire_def)
next
  case (Expire h')
  with h p show ?thesis
    by (auto simp add: expire_def expiryCallback_def nth_list_update)
qed (use p in \<open>auto simp add: status_def keys_def release_def setValue_def getValue_def
      split: option.splits sum.splits if_splits\<close>)

lemma pending_run:
  assumes "armed st" and "h < length (timers st)" and "tStatus (timers st ! h) = Pending"
    and "\<forall>ev \<in> set evs. (\<forall>d. ev \<noteq> Renew (tID (timers st ! h)) d) \<and>
           ev \<noteq> Destroy (tID (timers st ! h)) \<and> ev \<noteq> Fire h"
  shows "tStatus (timers (run st evs) ! h) = Pending"
  using assms unfolding run_def
proof (induction evs arbitrary: st)
  case Nil
  then show ?case by simp
next
  case (Cons ev evs)
  have 1: "armed (step st ev)" using Cons.prems(1) by (rule armed_step)
  from timers_step [OF Cons.prems(2), of ev]
  have 2: "h < length (timers (step st ev))" "tID (timers (step st ev) ! h) = tID (timers st ! h)"
    by simp_all
  have 3: "tStatus (timers (step st ev) ! h) = Pending"
    using Cons.prems by (intro pending_step) auto
  from Cons.IH [OF 1 2(1) 3] Cons.prems(4) 2(2) show ?case by simp
qed

lemma acquired_timer_fires:
  assumes "armed st0"
    and acq: "acquire key duration val sid st0 = (Inr (AcquireReturn sid True), st1)"
    and quiet: "\<forall>ev \<in> set evs. (\<forall>d. ev \<noteq> Renew sid d) \<and> ev \<noteq> Destroy sid \<and>
                  ev \<noteq> Fire (length (timers st0))"
  shows "tStatus (timers (run st1 evs) ! length (timers st0)) = Pending"
    and "tStatus (timers (run st1 (evs @ [Fire (length (timers st0))])) ! length (timers st0)) = Fired"
    and "kvLock (run st1 (evs @ [Fire (length (timers st0))])) = kvLock (run st1 evs)"
proof -
  let ?h = "length (timers st0)"
  have "st1 = snd (acquire key duration val sid st0)" using acq by simp
  with armed_acquire [OF assms(1)] have a1: "armed st1" by simp
  from acquire_arms [OF acq] have t: "?h < length (timers st1)" "tID (timers st1 ! ?h) = sid"
    "tStatus (timers st1 ! ?h) = Pending" by simp_all
  from pending_run [OF a1 t(1) t(3)] quiet t(2)
  show p: "tStatus (timers (run st1 evs) ! ?h) = Pending" by simp
  from timers_run [OF t(1), of evs] have l: "?h < length (timers (run st1 evs))" by simp
  have r: "run st1 (evs @ [Fire ?h]) = step (run st1 evs) (Fire ?h)"
    by (simp add: run_def)
  from fire_pending [OF l p] l
  show "tStatus (timers (run st1 (evs @ [Fire ?h])) ! ?h) = Fired"
    and "kvLock (run st1 (evs @ [Fire ?h])) = kvLock (run st1 evs)"
    by (simp_all add: r)
qed


lemma lease_expiry_cleanup:
  assumes reach: "st0 = run initial evs0"
    and acq: "acquire key duration val sid st0 = (Inr (AcquireReturn sid True), st1)"
    and quiet: "\<forall>ev \<in> set evs. (\<forall>d. ev \<noteq> Renew sid d) \<and> ev \<noteq> Destroy sid \<and>
                  ev \<noteq> Fire (length (timers st0))"
    and free: "canLock (kvLock (run st1 evs))"
    and st3: "st3 = run st1 (evs @ [Fire (length (timers st0)), Expire (length (timers st0))])"
  shows "kvs st3 = (kvs (run st1 evs))(key := None)"
    and "sessions st3 = (sessions (run st1 evs))(sid := None)"
    and "getValue key st3 = (Inr (GetReturn False [] []), st3)"
    and "ParseInt d = Inr interval \<Longrightarrow> renew sid d st3 = (Inr NoBody, st3)"
    and "destroy sid st3 = (Inr NoBody, st3)"
proof -
  let ?h = "length (timers st0)"
  let ?st2 = "run st1 (evs @ [Fire ?h])"
  have a0: "armed st0" using reach armed_initial by (simp add: armed_run)
  from acquired_timer_fires [OF a0 acq quiet] free
  have f: "tStatus (timers ?st2 ! ?h) = Fired" "canLock (kvLock ?st2)"
    "kvLock ?st2 = kvLock (run st1 evs)" by simp_all
  from acquire_arms [OF acq] have t1: "?h < length (timers st1)"
    "tKey (timers st1 ! ?h) = key" "tID (timers st1 ! ?h) = sid" by simp_all
  from timers_run [OF t1(1), of "evs @ [Fire ?h]"] t1
  have t2: "?h < length (timers ?st2)" "tKey (timers ?st2 ! ?h) = key" "tID (timers ?st2 ! ?h) = sid"
    by simp_all
  have same: "kvs ?st2 = kvs (run st1 evs)" "sessions ?st2 = sessions (run st1 evs)"
    by (simp_all add: run_def fire_def split: sum.splits)
  have "st3 = step ?st2 (Expire ?h)" using st3 by (simp add: run_def)
  with expire_fired [OF t2(1) f(1,2)] t2
  have e: "st3 = ?st2\<lparr>kvs := (kvs ?st2)(key := None), sessions := (sessions ?st2)(sid := None),
                       timers := (timers ?st2)[?h := (timers ?st2 ! ?h)\<lparr>tStatus := Done\<rparr>]\<rparr>"
    by simp
  show "kvs st3 = (kvs (run st1 evs))(key := None)"
    and "sessions st3 = (sessions (run st1 evs))(sid := None)"
    using e same by simp_all
  show "getValue key st3 = (Inr (GetReturn False [] []), st3)"
    using f(2) by (simp add: e getValue_def canLock_def canRLock_def)
  show "ParseInt d = Inr interval \<Longrightarrow> renew sid d st3 = (Inr NoBody, st3)"
    using f(2) by (simp add: e renew_def)
  show "destroy sid st3 = (Inr NoBody, st3)"
    using f(2) by (simp add: e destroy_def)
qed

subsection \<open>Listing keys\<close>

lemma appends_failure: "appends prefix key = Inl e \<Longrightarrow> e = SliceBounds"
  by (auto simp add: appends_def sliceTo_def split: if_splits)

lemma appends_short: "prefix \<noteq> [] \<Longrightarrow> length key < length prefix \<Longrightarrow> appends prefix key = Inl SliceBounds"
  by (simp add: appends_def sliceTo_def)

lemma keysLoop_short_key:
  assumes "prefix \<noteq> []" and "key \<in> set order" and "length key < length prefix"
  shows "keysLoop prefix order ret = Inl SliceBounds"
  using assms(2)
proof (induction order arbitrary: ret)
  case Nil
  then show ?case by simp
next
  case (Cons k rest)
  show ?case
  proof (cases "appends prefix k")
    case (Inl e)
    with appends_failure [OF Inl] show ?thesis by simp
  next
    case (Inr b)
    with appends_short [OF assms(1,3)] have "k \<noteq> key" by auto
    with Cons.prems have "key \<in> set rest" by simp
    from Cons.IH [OF this] Inr show ?thesis by (cases b) simp_all
  qed
qed

lemma keys_short_key:
  assumes "canRLock (kvLock st)" and "rangeOf order (kvs st)"
    and "prefix \<noteq> []" and "kvs st key \<noteq> None" and "length key < length prefix"
  shows "fst (keys prefix order st) = Inl SliceBounds"
    and "readers (kvLock (snd (keys prefix order st))) = readers (kvLock st) + 1"
proof -
  from assms(2,4) have "key \<in> set order" by (auto simp add: rangeOf_def)
  from keysLoop_short_key [OF assms(3) this assms(5)] assms(1)
  show "fst (keys prefix order st) = Inl SliceBounds"
    and "readers (kvLock (snd (keys prefix order st))) = readers (kvLock st) + 1"
    by (simp_all add: keys_def)
qed

lemma keysLoop_empty_prefix: "keysLoop [] order ret = Inr (ret @ order)"
  by (induction order arbitrary: ret) (simp_all add: appends_def)

lemmas keys_defs = keys_def appends_def sliceTo_def rangeOf_def

text \<open>
  C3 asks that listing never crashes and that, with the keys \<open>ab\<close>, \<open>abc\<close>, \<open>b\<close>,
  the prefix \<open>ab\<close> gives \<open>ab\<close> and \<open>abc\<close> and the prefix \<open>abcdef\<close> gives the
  empty list. The handler slices every key to the length of the prefix: with these three
  keys both prefixes end in the panic of the slice expression (by \<open>keys_short_key\<close> in
  any order of the loop); only the empty prefix lists the keys.
\<close>

theorem keys_panics_at_short_key:
  "rangeOf [''ab'', ''abc'', ''b'']
     (kvs (run initial [SetValue ''ab'' [] ''1'', SetValue ''abc'' [] ''2'', SetValue ''b'' [] ''3'']))
   \<and> canRLock (kvLock (run initial [SetValue ''ab'' [] ''1'', SetValue ''abc'' [] ''2'', SetValue ''b'' [] ''3'']))
   \<and> fst (keys ''ab'' [''ab'', ''abc'', ''b'']
        (run initial [SetValue ''ab'' [] ''1'', SetValue ''abc'' [] ''2'', SetValue ''b'' [] ''3'']))
      = Inl SliceBounds
   \<and> fst (keys ''abcdef'' [''ab'', ''abc'', ''b'']
        (run initial [SetValue ''ab'' [] ''1'', SetValue ''abc'' [] ''2'', SetValue ''b'' [] ''3'']))
      = Inl SliceBounds
   \<and> fst (keys [] [''ab'', ''abc'', ''b'']
        (run initial [SetValue ''ab'' [] ''1'', SetValue ''abc'' [] ''2'', SetValue ''b'' [] ''3'']))
      = Inr (KeysReturn [''ab'', ''abc'', ''b''])"
  by (auto simp add: eval_defs keys_defs)

text \<open>
  After the panic the read lock stays held. A request that then asks for the write lock
  waits for ever, and every reader after it waits as well.
\<close>

lemma reader_waits_behind_writer:
  assumes "canRLock (kvLock st)" and "rangeOf order (kvs st)"
    and "prefix \<noteq> []" and "kvs st key \<noteq> None" and "length key < length prefix"
  shows "fst (getValue k (snd (destroy sid (snd (keys prefix order st))))) = Inl Blocks"
proof -
  from assms(2,4) have "key \<in> set order" by (auto simp add: rangeOf_def)
  from keysLoop_short_key [OF assms(3) this assms(5)] assms(1)
  show ?thesis
    by (simp add: keys_def destroy_def getValue_def canLock_def canRLock_def)
qed

subsection \<open>Acquire on a key that is held\<close>

text \<open>
  While the entry of the key is locked, acquire fails and changes nothing: the id it
  returns is not registered by it.
\<close>

lemma acquire_on_locked_key:
  assumes "canLock (kvLock st)" and "ParseInt duration = Inr interval"
    and "kvs st key = Some v" and "IsLocked v"
  shows "acquire key duration val newId st = (Inr (AcquireReturn newId False), st)"
  using assms by (simp add: acquire_def)

text \<open>
  C1 asks that no second session acquires a key until the session that acquired it
  releases, expires or is destroyed. The requests acquire \<open>k\<close> (session \<open>s0\<close>), release
  \<open>k\<close> by \<open>s0\<close>, acquire \<open>k\<close> (session \<open>s1\<close>), destroy \<open>s0\<close> leave \<open>s1\<close>
  registered for \<open>k\<close> with its timer pending: it has not released, expired or been
  destroyed. The destroy of \<open>s0\<close> has deleted the entry of \<open>k\<close>, so the next acquire
  of \<open>k\<close> succeeds for a session \<open>s2\<close>, and both \<open>s1\<close> and \<open>s2\<close> are registered for
  \<open>k\<close>.
\<close>

theorem acquire_succeeds_under_live_session:
  "fst (acquire ''k'' ''10'' ''w'' ''s1''
         (run initial [Acquire ''k'' ''10'' ''v'' ''s0'', Release ''k'' ''s0'']))
     = Inr (AcquireReturn ''s1'' True)
   \<and> sessions (run initial
        [Acquire ''k'' ''10'' ''v'' ''s0'', Release ''k'' ''s0'', Acquire ''k'' ''10'' ''w'' ''s1'', Destroy ''s0'']) ''s1'' = Some \<lparr>ID = ''s1'', Key = ''k'', Timer = Some 1\<rparr>
   \<and> tStatus (timers (run initial
        [Acquire ''k'' ''10'' ''v'' ''s0'', Release ''k'' ''s0'', Acquire ''k'' ''10'' ''w'' ''s1'', Destroy ''s0'']) ! 1) = Pending
   \<and> canLock (kvLock (run initial
        [Acquire ''k'' ''10'' ''v'' ''s0'', Release ''k'' ''s0'', Acquire ''k'' ''10'' ''w'' ''s1'', Destroy ''s0'']))
   \<and> fst (acquire ''k'' ''10'' ''x'' ''s2'' (run initial
        [Acquire ''k'' ''10'' ''v'' ''s0'', Release ''k'' ''s0'', Acquire ''k'' ''10'' ''w'' ''s1'', Destroy ''s0''])) = Inr (AcquireReturn ''s2'' True)
   \<and> sessions (snd (acquire ''k'' ''10'' ''x'' ''s2'' (run initial
        [Acquire ''k'' ''10'' ''v'' ''s0'', Release ''k'' ''s0'', Acquire ''k'' ''10'' ''w'' ''s1'', Destroy ''s0'']))) ''s1''
       = Some \<lparr>ID = ''s1'', Key = ''k'', Timer = Some 1\<rparr>
   \<and> sessions (snd (acquire ''k'' ''10'' ''x'' ''s2'' (run initial
        [Acquire ''k'' ''10'' ''v'' ''s0'', Release ''k'' ''s0'', Acquire ''k'' ''10'' ''w'' ''s1'', Destroy ''s0'']))) ''s2''
       = Some \<lparr>ID = ''s2'', Key = ''k'', Timer = Some 2\<rparr>
   \<and> kvs (snd (acquire ''k'' ''10'' ''x'' ''s2'' (run initial
        [Acquire ''k'' ''10'' ''v'' ''s0'', Release ''k'' ''s0'', Acquire ''k'' ''10'' ''w'' ''s1'', Destroy ''s0'']))) ''k''
       = Some \<lparr>Value = ''x'', IsLocked = True\<rparr>"
  by (simp add: eval_defs)

subsection \<open>Set with a session id\<close>

text \<open>
  On a key that has an entry, set with a session id succeeds exactly for a registered
  session of that key, and then only overwrites the value.
\<close>

lemma setValue_with_session:
  assumes "canLock (kvLock st)" and "sessionId \<noteq> []" and "kvs st key = Some v"
  shows "(fst (setValue key sessionId val st) = Inr (SetReturn True)) =
           (\<exists>s. sessions st sessionId = Some s \<and> Key s = key)"
    and "(\<exists>s. sessions st sessionId = Some s \<and> Key s = key) \<Longrightarrow>
           setValue key sessionId val st =
             (Inr (SetReturn True), st\<lparr>kvs := (kvs st)(key \<mapsto> v\<lparr>Value := val\<rparr>)\<rparr>)"
    and "\<not> (\<exists>s. sessions st sessionId = Some s \<and> Key s = key) \<Longrightarrow>
           setValue key sessionId val st = (Inr (SetReturn False), st)"
  using assms by (auto simp add: setValue_def split: option.splits)

text \<open>
  C6 asks that set with a session id replies \<open>success=true\<close> and overwrites the value
  whenever the session is registered and its key is the key of the request. After the
  requests acquire \<open>k\<close> (\<open>s0\<close>), release \<open>k\<close> by \<open>s0\<close>, acquire \<open>k\<close> (\<open>s1\<close>),
  destroy \<open>s0\<close>, the session \<open>s1\<close> is registered for \<open>k\<close> and \<open>k\<close> has no entry:
  set of \<open>k\<close> by \<open>s1\<close> ends in a nil dereference, with \<open>kvLock\<close> left write-locked.
\<close>

theorem setValue_panics_for_owner_without_entry:
  "canLock (kvLock (run initial
        [Acquire ''k'' ''10'' ''v'' ''s0'', Release ''k'' ''s0'', Acquire ''k'' ''10'' ''w'' ''s1'', Destroy ''s0'']))
   \<and> sessions (run initial
        [Acquire ''k'' ''10'' ''v'' ''s0'', Release ''k'' ''s0'', Acquire ''k'' ''10'' ''w'' ''s1'', Destroy ''s0'']) ''s1'' = Some \<lparr>ID = ''s1'', Key = ''k'', Timer = Some 1\<rparr>
   \<and> fst (setValue ''k'' ''s1'' ''x'' (run initial
        [Acquire ''k'' ''10'' ''v'' ''s0'', Release ''k'' ''s0'', Acquire ''k'' ''10'' ''w'' ''s1'', Destroy ''s0''])) = Inl NilDeref
   \<and> writer (kvLock (snd (setValue ''k'' ''s1'' ''x'' (run initial
        [Acquire ''k'' ''10'' ''v'' ''s0'', Release ''k'' ''s0'', Acquire ''k'' ''10'' ''w'' ''s1'', Destroy ''s0'']))))"
  by (simp add: eval_defs)

subsection \<open>Sessions and the entries of their keys\<close>

text \<open>
  C10 asks that, whenever the guard is free, the key of every registered session has a
  table entry. It holds after acquire \<open>k\<close> (\<open>s0\<close>), release \<open>k\<close> by \<open>s0\<close>, acquire
  \<open>k\<close> (\<open>s1\<close>); the destroy of \<open>s0\<close> then deletes the entry of \<open>k\<close>, and \<open>s1\<close>
  stays registered for \<open>k\<close> with the guard free.
\<close>

theorem session_left_without_entry:
  "canLock (kvLock (run initial
        [Acquire ''k'' ''10'' ''v'' ''s0'', Release ''k'' ''s0'', Acquire ''k'' ''10'' ''w'' ''s1'', Destroy ''s0'']))
   \<and> sessions (run initial
        [Acquire ''k'' ''10'' ''v'' ''s0'', Release ''k'' ''s0'', Acquire ''k'' ''10'' ''w'' ''s1'', Destroy ''s0'']) ''s1'' = Some \<lparr>ID = ''s1'', Key = ''k'', Timer = Some 1\<rparr>
   \<and> kvs (run initial
        [Acquire ''k'' ''10'' ''v'' ''s0'', Release ''k'' ''s0'', Acquire ''k'' ''10'' ''w'' ''s1'', Destroy ''s0'']) ''k'' = None"
  by (simp add: eval_defs)

text \<open>The same in terms of \<open>sessionsHaveEntry\<close>: true before the destroy, false after it.\<close>

lemma sessionsHaveEntry_lost:
  "sessionsHaveEntry (run initial [Acquire ''k'' ''10'' ''v'' ''s0'', Release ''k'' ''s0'',
      Acquire ''k'' ''10'' ''w'' ''s1''])
   \<and> \<not> sessionsHaveEntry (run initial
        [Acquire ''k'' ''10'' ''v'' ''s0'', Release ''k'' ''s0'', Acquire ''k'' ''10'' ''w'' ''s1'', Destroy ''s0''])"
  by (simp add: eval_defs sessionsHaveEntry_def)

text \<open>
  C2 as it is stated fails at release: after a successful acquire the key of the one
  session is locked; the release by that session succeeds, the session stays registered
  and the entry of its key is not locked any more.
\<close>

theorem release_breaks_sessionsLocked:
  "sessionsLocked (run initial [Acquire ''k'' ''10'' ''v'' ''s0''])
   \<and> fst (release ''k'' ''s0'' (run initial [Acquire ''k'' ''10'' ''v'' ''s0'']))
       = Inr (ReleaseReturn True)
   \<and> \<not> sessionsLocked (snd (release ''k'' ''s0'' (run initial [Acquire ''k'' ''10'' ''v'' ''s0''])))"
  by (simp add: eval_defs sessionsLocked_def)

lemma sessionsLocked_acquire:
  assumes "sessionsLocked st"
  shows "sessionsLocked (snd (acquire key duration val newId st))"
  using assms
  by (auto simp add: sessionsLocked_def acquire_def startTimer_def Let_def
      split: sum.splits option.splits if_splits)

lemma sessionsLocked_setValue:
  assumes "sessionsLocked st"
  shows "sessionsLocked (snd (setValue key sessionId val st))"
  unfolding sessionsLocked_def
proof (intro allI impI)
  fix sid s
  assume "sessions (snd (setValue key sessionId val st)) sid = Some s"
  then have "sessions st sid = Some s"
    by (simp add: setValue_def split: option.splits if_splits)
  with assms obtain v where "kvs st (Key s) = Some v" "IsLocked v"
    unfolding sessionsLocked_def by blast
  then show "\<exists>v. kvs (snd (setValue key sessionId val st)) (Key s) = Some v \<and> IsLocked v"
    by (auto simp add: setValue_def split: option.splits)
qed

lemma sessionsLocked_renew:
  assumes "sessionsLocked st"
  shows "sessionsLocked (snd (renew sessionId duration st))"
  using assms
  by (auto simp add: sessionsLocked_def renew_def startTimer_def Let_def
      split: sum.splits option.splits if_splits)

lemma sessionsLocked_release:
  assumes "sessionsLocked st"
  shows "sessionsLocked (snd (release key sessionId st)) =
           (fst (release key sessionId st) \<noteq> Inr (ReleaseReturn True))"
  using assms
  by (auto simp add: sessionsLocked_def release_def split: option.splits if_splits)

lemma sessionsLocked_destroy:
  assumes "sessionsLocked st"
    and "\<forall>s. sessions st sessionId = Some s \<longrightarrow> boundOnlyTo (Key s) sessionId st"
  shows "sessionsLocked (snd (destroy sessionId st))"
  using assms
  by (auto simp add: sessionsLocked_def boundOnlyTo_def destroy_def split: option.splits if_splits)

lemma sessionsLocked_expiryCallback:
  assumes "sessionsLocked st" and "boundOnlyTo (tKey t) (tID t) st"
  shows "sessionsLocked (snd (expiryCallback t st))"
  using assms
  by (auto simp add: sessionsLocked_def boundOnlyTo_def expiryCallback_def split: option.splits if_splits)

text \<open>
  C2, amended. From a state in which the key of every registered session has an entry
  with \<open>isLocked\<close> true: acquire, set and renew lead to such a state again; release
  leads to such a state exactly when it does not report success (a successful release
  clears the flag and keeps the session); destroy leads to such a state when no session
  registered under another id is bound to the key of the destroyed session; the expiry
  callback leads to such a state when no session registered under another id than the
  callback's is bound to the callback's key.
\<close>

theorem sessionsLocked_kept_except_by_release:
  assumes "sessionsLocked st"
  shows "sessionsLocked (snd (acquire key duration val newId st))
     \<and> sessionsLocked (snd (setValue key sessionId val st))
     \<and> sessionsLocked (snd (renew sessionId duration st))
     \<and> (sessionsLocked (snd (release key sessionId st)) =
          (fst (release key sessionId st) \<noteq> Inr (ReleaseReturn True)))
     \<and> ((\<forall>s. sessions st sessionId = Some s \<longrightarrow> boundOnlyTo (Key s) sessionId st) \<longrightarrow>
          sessionsLocked (snd (destroy sessionId st)))
     \<and> (boundOnlyTo (tKey t) (tID t) st \<longrightarrow> sessionsLocked (snd (expiryCallback t st)))"
  using assms
  by (simp add: sessionsLocked_acquire sessionsLocked_setValue sessionsLocked_renew
      sessionsLocked_release sessionsLocked_destroy sessionsLocked_expiryCallback)

theorem sessionsLocked_kept_except_by_release_witness:
  "sessionsLocked (run initial [Acquire ''k'' ''10'' ''v'' ''s0''])
   \<and> boundOnlyTo ''k'' ''s0'' (run initial [Acquire ''k'' ''10'' ''v'' ''s0''])
   \<and> sessionsLocked (snd (acquire ''j'' ''10'' ''w'' ''s1'' (run initial [Acquire ''k'' ''10'' ''v'' ''s0''])))
   \<and> sessionsLocked (snd (setValue ''k'' ''s0'' ''w'' (run initial [Acquire ''k'' ''10'' ''v'' ''s0''])))
   \<and> sessionsLocked (snd (renew ''s0'' ''10'' (run initial [Acquire ''k'' ''10'' ''v'' ''s0''])))
   \<and> fst (release ''k'' ''s0'' (run initial [Acquire ''k'' ''10'' ''v'' ''s0''])) = Inr (ReleaseReturn True)
   \<and> \<not> sessionsLocked (snd (release ''k'' ''s0'' (run initial [Acquire ''k'' ''10'' ''v'' ''s0''])))
   \<and> sessionsLocked (snd (destroy ''s0'' (run initial [Acquire ''k'' ''10'' ''v'' ''s0''])))
   \<and> sessionsLocked (snd (expiryCallback (timers (run initial [Acquire ''k'' ''10'' ''v'' ''s0'']) ! 0) (run initial [Acquire ''k'' ''10'' ''v'' ''s0''])))"
proof -
  have a: "sessionsLocked (run initial [Acquire ''k'' ''10'' ''v'' ''s0''])"
    by (simp add: eval_defs sessionsLocked_def)
  have b: "boundOnlyTo ''k'' ''s0'' (run initial [Acquire ''k'' ''10'' ''v'' ''s0''])"
    by (simp add: eval_defs boundOnlyTo_def)
  have c: "sessions (run initial [Acquire ''k'' ''10'' ''v'' ''s0'']) ''s0'' = Some \<lparr>ID = ''s0'', Key = ''k'', Timer = Some 0\<rparr>"
    "tKey (timers (run initial [Acquire ''k'' ''10'' ''v'' ''s0'']) ! 0) = ''k''" "tID (timers (run initial [Acquire ''k'' ''10'' ''v'' ''s0'']) ! 0) = ''s0''"
    "fst (release ''k'' ''s0'' (run initial [Acquire ''k'' ''10'' ''v'' ''s0''])) = Inr (ReleaseReturn True)"
    by (simp_all add: eval_defs)
  from sessionsLocked_kept_except_by_release
    [OF a, where key = "''j''" and duration = "''10''" and val = "''w''" and newId = "''s1''"
       and sessionId = "''s0''" and t = "timers (run initial [Acquire ''k'' ''10'' ''v'' ''s0'']) ! 0"]
    sessionsLocked_kept_except_by_release
    [OF a, where key = "''k''" and duration = "''10''" and val = "''w''" and newId = "''s1''"
       and sessionId = "''s0''" and t = "timers (run initial [Acquire ''k'' ''10'' ''v'' ''s0'']) ! 0"]
    a b c
  show ?thesis by simp
qed

end
